theory Spec2Isabelle
  imports Complex_Main "HOL-Library.Sublist"
begin

section \<open>Python primitives used by the script\<close>

text \<open>
  Strings are character lists; one \<^typ>\<open>char\<close> stands for one character of a Python
  \<^verbatim>\<open>str\<close>, so \<^const>\<open>length\<close> is \<^verbatim>\<open>len\<close> and \<^const>\<open>take\<close> is the
  slice \<^verbatim>\<open>s[:n]\<close> for \<open>n \<ge> 0\<close>.
\<close>

subsection \<open>\<^verbatim>\<open>str(int)\<close> and its inverse\<close>

definition digit_char :: "nat \<Rightarrow> char" where
  "digit_char d = ''0123456789'' ! d"

fun digits :: "nat \<Rightarrow> string" where
  "digits n = (if n < 10 then [digit_char n] else digits (n div 10) @ [digit_char (n mod 10)])"

declare digits.simps [simp del]

definition str_int :: "int \<Rightarrow> string" where
  "str_int i = (if i < 0 then CHR ''-'' # digits (nat (- i)) else digits (nat i))"

definition digit_val :: "char \<Rightarrow> nat" where
  "digit_val c = of_char c - 48"

definition nat_of_digits :: "string \<Rightarrow> nat" where
  "nat_of_digits s = foldl (\<lambda>acc c. acc * 10 + digit_val c) 0 s"


subsection \<open>\<^verbatim>\<open>str.ljust\<close>, \<^verbatim>\<open>str.rjust\<close>, \<^verbatim>\<open>str.join\<close>\<close>

definition ljust :: "string \<Rightarrow> nat \<Rightarrow> string" where
  "ljust s w = s @ replicate (w - length s) CHR '' ''"

definition rjust :: "string \<Rightarrow> nat \<Rightarrow> string" where
  "rjust s w = replicate (w - length s) CHR '' '' @ s"


section \<open>The usage payload\<close>

text \<open>
  The payload is the parsed JSON body of the usage endpoint: a top-level list of buckets
  under \<^verbatim>\<open>data\<close>, each bucket with an optional start timestamp and a list of results
  under \<^verbatim>\<open>results\<close> or \<^verbatim>\<open>result\<close>. Every field is read with \<^verbatim>\<open>dict.get\<close>, so
  every field is optional: \<open>None\<close> is what \<^verbatim>\<open>get\<close> returns for a key that is absent
  or holds JSON \<^verbatim>\<open>null\<close>. Token and request counts are integers, names and tags are
  strings.
\<close>

record usage_result =
  object :: "string option"
  model :: "string option"
  input_tokens :: "int option"
  output_tokens :: "int option"
  num_model_requests :: "int option"

record bucket =
  start_time :: "int option"
  start_datetime :: "string option"
  results :: "usage_result list option"
  result :: "usage_result list option"

record usage =
  data :: "bucket list option"

section \<open>\<^verbatim>\<open>printable_completions_usage\<close>\<close>

type_synonym row = "string \<times> string \<times> string \<times> string \<times> string \<times> string"

definition headers :: "string list" where
  "headers = [''UTC Date'', ''Model'', ''Input'', ''Output'', ''Total'', ''Requests'']"

definition cells :: "row \<Rightarrow> string list" where
  "cells r = (case r of (a, b, c, d, e, f) \<Rightarrow> [a, b, c, d, e, f])"

text \<open>\<^verbatim>\<open>for i, cell in enumerate(row): widths[i] = max(widths[i], len(cell))\<close>\<close>

definition update_widths :: "nat list \<Rightarrow> row \<Rightarrow> nat list" where
  "update_widths widths r =
     fold (\<lambda>(i, cell) ws. ws[i := max (ws ! i) (length cell)]) (enumerate 0 (cells r)) widths"

text \<open>\<^verbatim>\<open>x or default\<close> on an optional string and on an optional integer.\<close>

definition str_or :: "string option \<Rightarrow> string \<Rightarrow> string" where
  "str_or v d = (case v of None \<Rightarrow> d | Some s \<Rightarrow> if s = [] then d else s)"

definition int_or :: "int option \<Rightarrow> int \<Rightarrow> int" where
  "int_or v d = (case v of None \<Rightarrow> d | Some n \<Rightarrow> if n = 0 then d else n)"

definition completions_result_tag :: string where
  "completions_result_tag = ''organization.usage.completions.result''"

text \<open>
  The body of the inner loop (source lines 133 to 160). The state is the list of rows, the
  column widths and the flag \<^verbatim>\<open>first_for_day\<close>.
\<close>

definition result_step ::
  "int \<Rightarrow> string \<Rightarrow> usage_result \<Rightarrow> row list \<times> nat list \<times> bool \<Rightarrow> row list \<times> nat list \<times> bool"
where
  "result_step max_model_length date_str r st =
     (case st of (rows, widths, first_for_day) \<Rightarrow>
        if object r \<noteq> Some completions_result_tag then st
        else
          let model_full = str_or (model r) ''(all models)'';
              model_display =
                (if max_model_length > 0 \<and> int (length model_full) > max_model_length
                 then take (nat max_model_length) model_full else model_full);
              input_toks = int_or (input_tokens r) 0;
              output_toks = int_or (output_tokens r) 0;
              total_toks = input_toks + output_toks;
              num_requests = int_or (num_model_requests r) 0;
              date_cell = (if first_for_day then date_str else '''');
              new_row = (date_cell, model_display, str_int input_toks, str_int output_toks,
                         str_int total_toks, str_int num_requests)
          in (rows @ [new_row], update_widths widths new_row, False))"

text \<open>The body of the outer loop (source lines 121 to 160).\<close>

definition bucket_step :: "int \<Rightarrow> bucket \<Rightarrow> row list \<times> nat list \<Rightarrow> row list \<times> nat list" where
  "bucket_step max_model_length b st =
     (case st of (rows, widths) \<Rightarrow>
        let res = (case results b of
                     Some rs \<Rightarrow> rs
                   | None \<Rightarrow> (case result b of None \<Rightarrow> [] | Some rs \<Rightarrow> if rs = [] then [] else rs))
        in if res = [] then st
           else
             let date_iso = (case start_datetime b of None \<Rightarrow> '''' | Some s \<Rightarrow> s);
                 date_str = (if date_iso \<noteq> [] then take 10 date_iso else '''');
                 (rows', widths', first_for_day) =
                    fold (result_step max_model_length date_str) res (rows, widths, True)
             in (rows', widths'))"

text \<open>Source lines 116 to 160: the rows and the column widths after both loops.\<close>

definition collect_rows :: "usage \<Rightarrow> int \<Rightarrow> row list \<times> nat list" where
  "collect_rows u max_model_length =
     fold (bucket_step max_model_length)
          (case data u of None \<Rightarrow> [] | Some bs \<Rightarrow> bs)
          ([], map length headers)"






definition line_cells :: "nat list \<Rightarrow> row \<Rightarrow> string list" where
  "line_cells widths r =
     map (\<lambda>(i, cell). if i \<le> 1 then ljust cell (widths ! i) else rjust cell (widths ! i))
         (enumerate 0 (cells r))"





section \<open>Dates and times\<close>

text \<open>
  An aware UTC datetime with microsecond 0 is identified with its POSIX timestamp in whole
  seconds. The calendar conversion follows the reference implementation of the standard
  library (\<^verbatim>\<open>_ord2ymd\<close> and \<^verbatim>\<open>_ymd2ord\<close> on proleptic Gregorian ordinals, where
  day 1 is 0001-01-01 and 1970-01-01 is day 719163).
\<close>

record datetime =
  year :: int
  month :: int
  day :: int
  hour :: int
  minute :: int
  second :: int

definition days_before_month_tab :: "int list" where
  "days_before_month_tab = [0, 0, 31, 59, 90, 120, 151, 181, 212, 243, 273, 304, 334]"

definition days_in_month_tab :: "int list" where
  "days_in_month_tab = [0, 31, 28, 31, 30, 31, 30, 31, 31, 30, 31, 30, 31]"

definition is_leap :: "int \<Rightarrow> bool" where
  "is_leap y \<longleftrightarrow> y mod 4 = 0 \<and> (y mod 100 \<noteq> 0 \<or> y mod 400 = 0)"

definition days_before_year :: "int \<Rightarrow> int" where
  "days_before_year y = (y - 1) * 365 + (y - 1) div 4 - (y - 1) div 100 + (y - 1) div 400"

definition days_before_month :: "int \<Rightarrow> int \<Rightarrow> int" where
  "days_before_month y m =
     days_before_month_tab ! nat m + (if m > 2 \<and> is_leap y then 1 else 0)"

definition ymd2ord :: "int \<Rightarrow> int \<Rightarrow> int \<Rightarrow> int" where
  "ymd2ord y m d = days_before_year y + days_before_month y m + d"

definition ord2ymd :: "int \<Rightarrow> int \<times> int \<times> int" where
  "ord2ymd ordinal =
     (let n = ordinal - 1;
          n400 = n div 146097; n = n mod 146097;
          n100 = n div 36524; n = n mod 36524;
          n4 = n div 1461; n = n mod 1461;
          n1 = n div 365; n = n mod 365;
          y = n400 * 400 + 1 + n100 * 100 + n4 * 4 + n1
      in if n1 = 4 \<or> n100 = 4 then (y - 1, 12, 31)
         else
           let leapyear = (n1 = 3 \<and> (n4 \<noteq> 24 \<or> n100 = 3));
               m = (n + 50) div 32;
               preceding = days_before_month_tab ! nat m + (if m > 2 \<and> leapyear then 1 else 0)
           in if preceding > n
              then (y, m - 1,
                    n - (preceding - (days_in_month_tab ! nat (m - 1)
                                      + (if m - 1 = 2 \<and> leapyear then 1 else 0))) + 1)
              else (y, m, n - preceding + 1))"

definition datetime_min :: int where
  "datetime_min = - 62135596800"

definition datetime_max :: int where
  "datetime_max = 253402300799"

datatype py_error =
    ValueError string
  | OverflowError string
  | HTTPStatusError int string
  | RequestError string
  | JSONDecodeError

text \<open>
  \<^verbatim>\<open>datetime.fromtimestamp(ts, tz=timezone.utc)\<close> on an integer timestamp; years outside
  1 to 9999 are refused.
\<close>

definition fromtimestamp :: "int \<Rightarrow> py_error + datetime" where
  "fromtimestamp ts =
     (if ts < datetime_min \<or> datetime_max < ts then Inl (ValueError ''year out of range'')
      else
        let (y, m, d) = ord2ymd (ts div 86400 + 719163);
            secs = ts mod 86400
        in Inr \<lparr>year = y, month = m, day = d, hour = secs div 3600,
                minute = secs mod 3600 div 60, second = secs mod 60\<rparr>)"

text \<open>\<^verbatim>\<open>datetime.timestamp()\<close> of an aware UTC datetime, in whole seconds.\<close>

definition timestamp :: "datetime \<Rightarrow> int" where
  "timestamp dt =
     (ymd2ord (year dt) (month dt) (day dt) - 719163) * 86400
       + hour dt * 3600 + minute dt * 60 + second dt"

definition zero_pad :: "nat \<Rightarrow> int \<Rightarrow> string" where
  "zero_pad w n = (let s = str_int n in replicate (w - length s) CHR ''0'' @ s)"


text \<open>\<^verbatim>\<open>str.replace(old, new)\<close>\<close>

function py_replace :: "string \<Rightarrow> string \<Rightarrow> string \<Rightarrow> string" where
  "py_replace old new s =
     (if old = [] then concat (map (\<lambda>c. new @ [c]) s) @ new
      else if s = [] then []
      else if prefix old s then new @ py_replace old new (drop (length old) s)
      else hd s # py_replace old new (tl s))"
  by pat_completeness auto
termination
  by (relation "measure (\<lambda>(old, new, s). length s)") auto

declare py_replace.simps [simp del]

text \<open>\<^verbatim>\<open>str.strip()\<close>: the whitespace characters of the ASCII range.\<close>

definition is_space :: "char \<Rightarrow> bool" where
  "is_space c \<longleftrightarrow> c \<in> set [CHR '' '', CHR 0x09, CHR 0x0A, CHR 0x0B, CHR 0x0C, CHR 0x0D,
                               CHR 0x1C, CHR 0x1D, CHR 0x1E, CHR 0x1F]"

definition strip :: "string \<Rightarrow> string" where
  "strip s = rev (dropWhile is_space (rev (dropWhile is_space s)))"

section \<open>The environment of the script\<close>

datatype param_value = PInt int | PStr string | PStrList "string list"

type_synonym params = "(string \<times> param_value) list"



record request =
  url :: string
  authorization :: string
  query :: params
  timeout_seconds :: int

text \<open>
  A response carries its status code, its body text, its headers and the result of
  \<^verbatim>\<open>resp.json()\<close>: the parsed payload, or \<open>None\<close> when the body does not decode.
\<close>

record response =
  status_code :: int
  body_text :: string
  response_headers :: "(string \<times> string) list"
  json :: "usage option"

datatype http_outcome = Transport string | Response response

text \<open>
  The world the script runs in: the credential variable, the clock (POSIX seconds), the
  remote side as a function from the request to what \<^verbatim>\<open>httpx.get\<close> yields, the requests
  issued so far, standard output, the log, the home directory and the file system.
  Creating the output directory and writing the file are taken to succeed.
\<close>

record world =
  admin_key :: "string option"
  now :: int
  server :: "request \<Rightarrow> http_outcome"
  sent :: "request list"
  stdout :: "string list"
  log_lines :: "string list"
  home :: string
  dirs :: "string list"
  files :: "string \<rightharpoonup> string"

section \<open>\<^verbatim>\<open>admin_get\<close>\<close>

definition missing_key_message :: string where
  "missing_key_message = ''Set OPENAI_ADMIN_KEY first (must be an *admin* key).''"

definition admin_get ::
  "string \<Rightarrow> params \<Rightarrow> world \<Rightarrow> (py_error + response \<times> (string \<times> string) list) \<times> world"
where
  "admin_get path ps w =
     (case admin_key w of
        None \<Rightarrow> (Inl (ValueError missing_key_message), w)
      | Some api_key \<Rightarrow>
          if api_key = [] then (Inl (ValueError missing_key_message), w)
          else
            let req = \<lparr>url = ''https://api.openai.com/v1/'' @ path,
                       authorization = ''Bearer '' @ api_key,
                       query = ps, timeout_seconds = 120\<rparr>;
                w1 = w\<lparr>sent := sent w @ [req]\<rparr>
            in (case server w req of
                 Transport msg \<Rightarrow>
                   (Inl (RequestError msg),
                    w1\<lparr>log_lines := log_lines w1 @ [''Request error: '' @ msg]\<rparr>)
               | Response resp \<Rightarrow>
                   let hdrs = response_headers resp
                   in if 200 \<le> status_code resp \<and> status_code resp \<le> 299
                      then (Inr (resp, hdrs), w1)
                      else
                        let stripped = strip (body_text resp);
                            shown = (if stripped = [] then ''<no body>'' else stripped);
                            code = str_int (status_code resp)
                        in (Inl (HTTPStatusError (status_code resp) (body_text resp)),
                            w1\<lparr>stdout := stdout w1 @ [''[Admin API] HTTP '' @ code @ '': '' @ shown],
                               log_lines := log_lines w1 @ [''HTTP '' @ code @ '': '' @ shown]\<rparr>)))"

section \<open>\<^verbatim>\<open>get_recent_completions_usage\<close>\<close>







section \<open>\<^verbatim>\<open>main\<close>\<close>





section \<open>Vocabulary of the properties\<close>

text \<open>
  The per-result list of a bucket as the specification words it: the list under the plural
  field name when that field is present, otherwise the list under the singular one,
  otherwise no results.
\<close>

definition per_result_list :: "bucket \<Rightarrow> usage_result list" where
  "per_result_list b =
     (case results b of
        Some rs \<Rightarrow> rs
      | None \<Rightarrow> (case result b of Some rs \<Rightarrow> rs | None \<Rightarrow> []))"

definition is_completions_result :: "usage_result \<Rightarrow> bool" where
  "is_completions_result r \<longleftrightarrow> object r = Some completions_result_tag"

definition usage_buckets :: "usage \<Rightarrow> bucket list" where
  "usage_buckets u = (case data u of None \<Rightarrow> [] | Some bs \<Rightarrow> bs)"

text \<open>The results that the specification says become rows, in payload order.\<close>

definition matching_results :: "usage \<Rightarrow> usage_result list" where
  "matching_results u =
     concat (map (\<lambda>b. filter is_completions_result (per_result_list b)) (usage_buckets u))"

text \<open>The date-only string of a bucket: the first ten characters of its ISO datetime.\<close>

definition date_str_of :: "bucket \<Rightarrow> string" where
  "date_str_of b = (case start_datetime b of None \<Rightarrow> '''' | Some s \<Rightarrow> take 10 s)"

text \<open>The five cells of a row that do not depend on the position in the bucket.\<close>

definition display_cells :: "int \<Rightarrow> usage_result \<Rightarrow> string \<times> string \<times> string \<times> string \<times> string"
where
  "display_cells mml r =
     (let model_full = str_or (model r) ''(all models)'';
          model_display = (if mml > 0 \<and> int (length model_full) > mml
                           then take (nat mml) model_full else model_full);
          i = int_or (input_tokens r) 0;
          out = int_or (output_tokens r) 0
      in (model_display, str_int i, str_int out, str_int (i + out),
          str_int (int_or (num_model_requests r) 0)))"

definition row_of :: "int \<Rightarrow> string \<Rightarrow> usage_result \<Rightarrow> row" where
  "row_of mml d r = (d, display_cells mml r)"

text \<open>The inner loop as a recursion on the results, started with any value of the flag.\<close>

fun dated_rows :: "int \<Rightarrow> string \<Rightarrow> bool \<Rightarrow> usage_result list \<Rightarrow> row list" where
  "dated_rows mml ds f [] = []"
| "dated_rows mml ds f (r # rs) =
     (if object r = Some completions_result_tag
      then row_of mml (if f then ds else '''') r # dated_rows mml ds False rs
      else dated_rows mml ds f rs)"

definition bucket_rows :: "int \<Rightarrow> bucket \<Rightarrow> row list" where
  "bucket_rows mml b = dated_rows mml (date_str_of b) True (per_result_list b)"

definition widen :: "row list \<Rightarrow> nat list \<Rightarrow> nat list" where
  "widen rows ws = fold (\<lambda>r w. update_widths w r) rows ws"

definition usage_rows :: "usage \<Rightarrow> int \<Rightarrow> row list" where
  "usage_rows u mml = fst (collect_rows u mml)"

definition usage_widths :: "usage \<Rightarrow> int \<Rightarrow> nat list" where
  "usage_widths u mml = snd (collect_rows u mml)"

definition date_cell :: "row \<Rightarrow> string" where "date_cell r = cells r ! 0"
definition model_cell :: "row \<Rightarrow> string" where "model_cell r = cells r ! 1"
definition input_cell :: "row \<Rightarrow> string" where "input_cell r = cells r ! 2"
definition output_cell :: "row \<Rightarrow> string" where "output_cell r = cells r ! 3"
definition total_cell :: "row \<Rightarrow> string" where "total_cell r = cells r ! 4"
definition requests_cell :: "row \<Rightarrow> string" where "requests_cell r = cells r ! 5"

subsection \<open>Sample payloads\<close>

definition ex_gpt4 :: usage_result where
  "ex_gpt4 = \<lparr>object = Some ''organization.usage.completions.result'', model = Some ''gpt-4'',
      input_tokens = Some 100, output_tokens = Some 50, num_model_requests = Some 3\<rparr>"

definition ex_bare :: usage_result where
  "ex_bare = \<lparr>object = Some ''organization.usage.completions.result'', model = None,
      input_tokens = None, output_tokens = None, num_model_requests = None\<rparr>"

definition ex_other :: usage_result where
  "ex_other = \<lparr>object = Some ''organization.usage.embeddings.result'', model = Some ''ada'',
      input_tokens = Some 9, output_tokens = None, num_model_requests = Some 1\<rparr>"

definition ex_bucket1 :: bucket where
  "ex_bucket1 = \<lparr>start_time = Some 1700000000, start_datetime = Some ''2023-11-14T22:13:20Z'',
      results = Some [ex_gpt4], result = None\<rparr>"

definition ex_bucket2 :: bucket where
  "ex_bucket2 = \<lparr>start_time = Some 1700092800, start_datetime = Some ''2023-11-16T00:00:00Z'',
      results = None, result = Some [ex_gpt4, ex_other, ex_bare]\<rparr>"

definition ex_empty_bucket :: bucket where
  "ex_empty_bucket = \<lparr>start_time = Some 1700179200,
      start_datetime = Some ''2023-11-17T00:00:00Z'', results = Some [], result = None\<rparr>"

definition ex_usage :: usage where
  "ex_usage = \<lparr>data = Some [ex_bucket1, ex_empty_bucket, ex_bucket2]\<rparr>"

subsection \<open>The shape of the derived datetime string\<close>

definition is_digit :: "char \<Rightarrow> bool" where
  "is_digit c \<longleftrightarrow> c \<in> set ''0123456789''"

text \<open>\<^verbatim>\<open>YYYY-MM-DDTHH:MM:SSZ\<close>: ISO 8601, UTC, seconds precision.\<close>

definition iso_utc_seconds :: "string \<Rightarrow> bool" where
  "iso_utc_seconds s \<longleftrightarrow>
     length s = 20
     \<and> list_all is_digit (take 4 s) \<and> s ! 4 = CHR ''-''
     \<and> list_all is_digit (take 2 (drop 5 s)) \<and> s ! 7 = CHR ''-''
     \<and> list_all is_digit (take 2 (drop 8 s)) \<and> s ! 10 = CHR ''T''
     \<and> list_all is_digit (take 2 (drop 11 s)) \<and> s ! 13 = CHR '':''
     \<and> list_all is_digit (take 2 (drop 14 s)) \<and> s ! 16 = CHR '':''
     \<and> list_all is_digit (take 2 (drop 17 s)) \<and> s ! 19 = CHR ''Z''"

text \<open>Reading such a string back as a datetime.\<close>

definition parse_iso_utc :: "string \<Rightarrow> datetime" where
  "parse_iso_utc s =
     \<lparr>year = int (nat_of_digits (take 4 s)),
      month = int (nat_of_digits (take 2 (drop 5 s))),
      day = int (nat_of_digits (take 2 (drop 8 s))),
      hour = int (nat_of_digits (take 2 (drop 11 s))),
      minute = int (nat_of_digits (take 2 (drop 14 s))),
      second = int (nat_of_digits (take 2 (drop 17 s)))\<rparr>"

subsection \<open>Sample worlds\<close>

definition ex_raw_bucket :: bucket where
  "ex_raw_bucket = \<lparr>start_time = Some 1700000000, start_datetime = None,
      results = Some [ex_gpt4], result = None\<rparr>"

definition ex_untimed_bucket :: bucket where
  "ex_untimed_bucket = \<lparr>start_time = None, start_datetime = None,
      results = Some [ex_bare], result = None\<rparr>"

definition ex_response :: response where
  "ex_response = \<lparr>status_code = 200, body_text = ''{}'', response_headers = [],
      json = Some \<lparr>data = Some [ex_raw_bucket, ex_untimed_bucket]\<rparr>\<rparr>"


definition ex_world :: world where
  "ex_world = \<lparr>admin_key = Some ''sk-admin'', now = 1700000000,
      server = (\<lambda>req. Response ex_response), sent = [], stdout = [], log_lines = [],
      home = ''/home/u'', dirs = [], files = Map.empty\<rparr>"

definition ex_world_no_key :: world where
  "ex_world_no_key = ex_world\<lparr>admin_key := None\<rparr>"

definition ex_world_empty_key :: world where
  "ex_world_empty_key = ex_world\<lparr>admin_key := Some ''''\<rparr>"





subsection \<open>The month and day part of the calendar conversion\<close>

text \<open>The last steps of \<^verbatim>\<open>_ord2ymd\<close>, from the day of the year to month and day.\<close>

definition ymd_tail :: "int \<Rightarrow> bool \<Rightarrow> int \<Rightarrow> int \<times> int \<times> int" where
  "ymd_tail y leapyear n =
     (let m = (n + 50) div 32;
          preceding = days_before_month_tab ! nat m + (if m > 2 \<and> leapyear then 1 else 0)
      in if preceding > n
         then (y, m - 1,
               n - (preceding - (days_in_month_tab ! nat (m - 1)
                                 + (if m - 1 = 2 \<and> leapyear then 1 else 0))) + 1)
         else (y, m, n - preceding + 1))"

section \<open>Properties of the formatter\<close>

subsection \<open>Decimal rendering\<close>

lemma digit_val_digit_char: "d < 10 \<Longrightarrow> digit_val (digit_char d) = d"
proof -
  assume "d < 10"
  then have "d \<in> {0, 1, 2, 3, 4, 5, 6, 7, 8, 9}" by auto
  then show ?thesis
    by (auto simp: digit_val_def digit_char_def)
qed


lemma nat_of_digits_snoc: "nat_of_digits (xs @ [c]) = nat_of_digits xs * 10 + digit_val c"
  by (simp add: nat_of_digits_def)

lemma nat_of_digits_digits: "nat_of_digits (digits n) = n"
proof (induction n rule: digits.induct)
  case (1 n)
  show ?case
  proof (cases "n < 10")
    case True
    then show ?thesis
      by (subst digits.simps) (simp add: nat_of_digits_def digit_val_digit_char)
  next
    case False
    with 1 show ?thesis
      by (subst digits.simps) (simp add: nat_of_digits_snoc digit_val_digit_char)
  qed
qed



lemma str_int_small:
  "str_int 0 = ''0''" "str_int 3 = ''3''" "str_int 50 = ''50''" "str_int 100 = ''100''"
  "str_int 150 = ''150''"
  by (simp_all add: str_int_def digits.simps digit_char_def)

subsection \<open>The loops\<close>

lemma result_step_eq:
  "result_step mml ds r (rows, ws, f) =
     (if object r = Some completions_result_tag
      then (rows @ [row_of mml (if f then ds else '''') r],
            update_widths ws (row_of mml (if f then ds else '''') r), False)
      else (rows, ws, f))"
  by (simp add: result_step_def row_of_def display_cells_def Let_def)

lemma fold_result_step:
  "fold (result_step mml ds) rs (rows, ws, f) =
     (rows @ dated_rows mml ds f rs, widen (dated_rows mml ds f rs) ws,
      f \<and> dated_rows mml ds f rs = [])"
  by (induction rs arbitrary: rows ws f) (simp_all add: result_step_eq widen_def)

lemma widen_append: "widen (xs @ ys) ws = widen ys (widen xs ws)"
  by (simp add: widen_def)

lemma bucket_step_eq:
  "bucket_step mml b (rows, ws) = (rows @ bucket_rows mml b, widen (bucket_rows mml b) ws)"
proof (cases "per_result_list b = []")
  case True
  then show ?thesis
    by (auto simp: bucket_step_def bucket_rows_def per_result_list_def widen_def
             split: option.splits)
next
  case False
  then have res: "(case results b of Some rs \<Rightarrow> rs
                   | None \<Rightarrow> (case result b of None \<Rightarrow> [] | Some rs \<Rightarrow> if rs = [] then [] else rs))
                  = per_result_list b"
    by (auto simp: per_result_list_def split: option.splits)
  have ds: "(if (case start_datetime b of None \<Rightarrow> '''' | Some s \<Rightarrow> s) \<noteq> []
             then take 10 (case start_datetime b of None \<Rightarrow> '''' | Some s \<Rightarrow> s) else '''')
            = date_str_of b"
    by (auto simp: date_str_of_def split: option.splits)
  show ?thesis
    unfolding bucket_step_def prod.case res Let_def ds
    using False by (simp add: fold_result_step bucket_rows_def)
qed

lemma fold_bucket_step:
  "fold (bucket_step mml) bs (rows, ws) =
     (rows @ concat (map (bucket_rows mml) bs), widen (concat (map (bucket_rows mml) bs)) ws)"
proof (induction bs arbitrary: rows ws)
  case Nil
  then show ?case by (simp add: widen_def)
next
  case (Cons b bs)
  then show ?case by (simp add: bucket_step_eq widen_append)
qed

lemma collect_rows_eq:
  "collect_rows u mml =
     (concat (map (bucket_rows mml) (usage_buckets u)),
      widen (concat (map (bucket_rows mml) (usage_buckets u))) (map length headers))"
  by (simp add: collect_rows_def usage_buckets_def fold_bucket_step)

lemma usage_rows_eq: "usage_rows u mml = concat (map (bucket_rows mml) (usage_buckets u))"
  by (simp add: usage_rows_def collect_rows_eq)

lemma usage_widths_eq: "usage_widths u mml = widen (usage_rows u mml) (map length headers)"
  by (simp add: usage_widths_def usage_rows_def collect_rows_eq)






lemma map_snd_dated_rows:
  "map snd (dated_rows mml ds f rs) = map (display_cells mml) (filter is_completions_result rs)"
  by (induction rs arbitrary: f) (auto simp: is_completions_result_def row_of_def)

lemma map_snd_usage_rows:
  "map snd (usage_rows u mml) = map (display_cells mml) (matching_results u)"
  by (simp add: usage_rows_eq matching_results_def map_concat bucket_rows_def
      map_snd_dated_rows comp_def)

subsection \<open>Column widths\<close>

lemma length_cells [simp]: "length (cells r) = 6"
  by (cases r) (simp add: cells_def)

lemma length_update_widths [simp]: "length (update_widths ws r) = length ws"
proof -
  have "length (fold (\<lambda>(i, cell) ws. ws[i := max (ws ! i) (length cell)]) xs ws) = length ws"
    for xs :: "(nat \<times> string) list"
    by (induction xs arbitrary: ws) (simp_all add: case_prod_beta)
  then show ?thesis by (simp add: update_widths_def)
qed

lemma update_widths_eq:
  assumes "length ws = 6"
  shows "update_widths ws r = map2 max ws (map length (cells r))"
proof -
  obtain a b c d e f where ws: "ws = [a, b, c, d, e, f]"
    using assms by (auto simp: length_Suc_conv eval_nat_numeral)
  obtain s1 s2 s3 s4 s5 s6 where r: "r = (s1, s2, s3, s4, s5, s6)"
    by (cases r) auto
  show ?thesis by (simp add: ws r update_widths_def cells_def enumerate_eq_zip upt_rec)
qed

lemma length_widen [simp]: "length (widen rows ws) = length ws"
  by (induction rows arbitrary: ws) (simp_all add: widen_def)



lemma length_usage_widths [simp]: "length (usage_widths u mml) = 6"
  by (simp add: usage_widths_eq headers_def)




subsection \<open>Rendered lines\<close>











subsection \<open>The sample payload, evaluated\<close>

lemmas ex_defs = ex_gpt4_def ex_bare_def ex_other_def ex_bucket1_def ex_bucket2_def
  ex_empty_bucket_def ex_usage_def

lemmas row_eval = usage_rows_eq usage_buckets_def bucket_rows_def per_result_list_def
  date_str_of_def row_of_def display_cells_def str_or_def int_or_def completions_result_tag_def
  str_int_small Let_def


lemma ex_usage_rows:
  "usage_rows ex_usage 30 =
     [(''2023-11-14'', ''gpt-4'', ''100'', ''50'', ''150'', ''3''),
      (''2023-11-16'', ''gpt-4'', ''100'', ''50'', ''150'', ''3''),
      ('''', ''(all models)'', ''0'', ''0'', ''0'', ''0'')]"
  by (simp add: ex_defs row_eval)

lemma ex_usage_widths: "usage_widths ex_usage 30 = [10, 12, 5, 6, 5, 8]"
  by (simp add: usage_widths_eq ex_usage_rows widen_def update_widths_eq headers_def cells_def)


lemma cells_row_of:
  "cells (row_of mml d r) =
     [d, fst (display_cells mml r), fst (snd (display_cells mml r)),
      fst (snd (snd (display_cells mml r))), fst (snd (snd (snd (display_cells mml r)))),
      snd (snd (snd (snd (display_cells mml r))))]"
  by (simp add: row_of_def cells_def split: prod.splits)

lemma row_of_cells:
  "date_cell (row_of mml d r) = d"
  "model_cell (row_of mml d r) =
     (let full = str_or (model r) ''(all models)''
      in if mml > 0 \<and> int (length full) > mml then take (nat mml) full else full)"
  "input_cell (row_of mml d r) = str_int (int_or (input_tokens r) 0)"
  "output_cell (row_of mml d r) = str_int (int_or (output_tokens r) 0)"
  "total_cell (row_of mml d r) =
     str_int (int_or (input_tokens r) 0 + int_or (output_tokens r) 0)"
  "requests_cell (row_of mml d r) = str_int (int_or (num_model_requests r) 0)"
  by (simp_all add: date_cell_def model_cell_def input_cell_def output_cell_def total_cell_def
      requests_cell_def cells_row_of display_cells_def Let_def)

lemma cells_of_snd:
  "model_cell rw = fst (snd rw)" "input_cell rw = fst (snd (snd rw))"
  "output_cell rw = fst (snd (snd (snd rw)))" "total_cell rw = fst (snd (snd (snd (snd rw))))"
  "requests_cell rw = snd (snd (snd (snd (snd rw))))" "date_cell rw = fst rw"
  by (cases rw; simp add: model_cell_def input_cell_def output_cell_def total_cell_def
      requests_cell_def date_cell_def cells_def)+





lemma length_usage_rows: "length (usage_rows u mml) = length (matching_results u)"
  using map_snd_usage_rows [of u mml] by (metis length_map)

lemma usage_rows_nth:
  assumes "i < length (matching_results u)"
  shows "\<exists>d. usage_rows u mml ! i = row_of mml d (matching_results u ! i)"
proof -
  have "snd (usage_rows u mml ! i) = display_cells mml (matching_results u ! i)"
    using assms map_snd_usage_rows [of u mml] length_usage_rows [of u mml]
    by (metis nth_map)
  then have "usage_rows u mml ! i =
      row_of mml (fst (usage_rows u mml ! i)) (matching_results u ! i)"
    by (simp add: row_of_def prod_eq_iff)
  then show ?thesis ..
qed






lemma int_or_None [simp]: "int_or None d = d"
  by (simp add: int_or_def)

lemma str_or_None [simp]: "str_or None d = d"
  by (simp add: str_or_def)

lemma line_cells_nth:
  assumes "length ws = 6"
  shows "line_cells ws rw ! 0 = ljust (cells rw ! 0) (ws ! 0)"
    and "line_cells ws rw ! 1 = ljust (cells rw ! 1) (ws ! 1)"
    and "line_cells ws rw ! 2 = rjust (cells rw ! 2) (ws ! 2)"
    and "line_cells ws rw ! 3 = rjust (cells rw ! 3) (ws ! 3)"
    and "line_cells ws rw ! 4 = rjust (cells rw ! 4) (ws ! 4)"
    and "line_cells ws rw ! 5 = rjust (cells rw ! 5) (ws ! 5)"
  by (cases rw; simp add: line_cells_def cells_def enumerate_eq_zip upt_rec eval_nat_numeral)+

section \<open>The claims about the formatter\<close>









text \<open>
  C7, as the code has it. For the row of a result of the expected type: an absent input
  count, output count or request count shows as \<open>0\<close> in its column (right-aligned in the
  rendered line). An absent model name shows as the literal \<open>(all models)\<close> cut like any
  other name: in full when the maximum display length is at least 12 (as the default 30
  is) or not positive, and as its first \<open>max_model_length\<close> characters otherwise.
\<close>

theorem missing_fields_default:
  assumes "i < length (matching_results u)"
  shows "length (usage_rows u mml) = length (matching_results u)
     \<and> (input_tokens (matching_results u ! i) = None \<longrightarrow>
          input_cell (usage_rows u mml ! i) = ''0''
          \<and> line_cells (usage_widths u mml) (usage_rows u mml ! i) ! 2
              = rjust ''0'' (usage_widths u mml ! 2))
     \<and> (output_tokens (matching_results u ! i) = None \<longrightarrow>
          output_cell (usage_rows u mml ! i) = ''0''
          \<and> line_cells (usage_widths u mml) (usage_rows u mml ! i) ! 3
              = rjust ''0'' (usage_widths u mml ! 3))
     \<and> (num_model_requests (matching_results u ! i) = None \<longrightarrow>
          requests_cell (usage_rows u mml ! i) = ''0''
          \<and> line_cells (usage_widths u mml) (usage_rows u mml ! i) ! 5
              = rjust ''0'' (usage_widths u mml ! 5))
     \<and> (model (matching_results u ! i) = None \<longrightarrow>
          model_cell (usage_rows u mml ! i) =
            (if 0 < mml \<and> mml < 12 then take (nat mml) ''(all models)'' else ''(all models)''))"
proof -
  obtain d where rw: "usage_rows u mml ! i = row_of mml d (matching_results u ! i)"
    using usage_rows_nth [OF assms] by blast
  have len: "length (usage_widths u mml) = 6" by simp
  have a: "input_tokens (matching_results u ! i) = None \<Longrightarrow>
      input_cell (usage_rows u mml ! i) = ''0''"
    by (simp add: rw row_of_cells str_int_small)
  have b: "output_tokens (matching_results u ! i) = None \<Longrightarrow>
      output_cell (usage_rows u mml ! i) = ''0''"
    by (simp add: rw row_of_cells str_int_small)
  have c: "num_model_requests (matching_results u ! i) = None \<Longrightarrow>
      requests_cell (usage_rows u mml ! i) = ''0''"
    by (simp add: rw row_of_cells str_int_small)
  have m: "model (matching_results u ! i) = None \<Longrightarrow>
      model_cell (usage_rows u mml ! i) =
        (if 0 < mml \<and> mml < 12 then take (nat mml) ''(all models)'' else ''(all models)'')"
    by (auto simp: rw row_of_cells Let_def)
  from a b c m show ?thesis
    using length_usage_rows [of u mml] line_cells_nth [OF len, of "usage_rows u mml ! i"]
    by (simp add: input_cell_def output_cell_def requests_cell_def)
qed

theorem missing_fields_default_witness:
  "matching_results ex_usage ! 2 = ex_bare
   \<and> input_tokens ex_bare = None \<and> output_tokens ex_bare = None
   \<and> num_model_requests ex_bare = None \<and> model ex_bare = None
   \<and> input_cell (usage_rows ex_usage 30 ! 2) = ''0''
   \<and> output_cell (usage_rows ex_usage 30 ! 2) = ''0''
   \<and> requests_cell (usage_rows ex_usage 30 ! 2) = ''0''
   \<and> model_cell (usage_rows ex_usage 30 ! 2) = ''(all models)''
   \<and> line_cells (usage_widths ex_usage 30) (usage_rows ex_usage 30 ! 2) ! 2 = ''    0''"
proof -
  have m: "matching_results ex_usage = [ex_gpt4, ex_gpt4, ex_bare]"
    by (simp add: matching_results_def usage_buckets_def per_result_list_def
        is_completions_result_def completions_result_tag_def ex_defs)
  then have h: "2 < length (matching_results ex_usage)" and e: "matching_results ex_usage ! 2 = ex_bare"
    by simp_all
  have n: "input_tokens ex_bare = None" "output_tokens ex_bare = None"
    "num_model_requests ex_bare = None" "model ex_bare = None"
    by (simp_all add: ex_bare_def)
  note t = missing_fields_default [OF h, of 30]
  from t e n have "input_cell (usage_rows ex_usage 30 ! 2) = ''0''
     \<and> output_cell (usage_rows ex_usage 30 ! 2) = ''0''
     \<and> requests_cell (usage_rows ex_usage 30 ! 2) = ''0''
     \<and> model_cell (usage_rows ex_usage 30 ! 2) = ''(all models)''
     \<and> line_cells (usage_widths ex_usage 30) (usage_rows ex_usage 30 ! 2) ! 2
          = rjust ''0'' (usage_widths ex_usage 30 ! 2)"
    by simp
  moreover have "rjust ''0'' (usage_widths ex_usage 30 ! 2) = ''    0''"
    by (simp add: ex_usage_widths rjust_def eval_nat_numeral)
  ultimately show ?thesis using e n by simp
qed

theorem missing_model_counterexample:
  "is_completions_result ex_bare \<and> model ex_bare = None
   \<and> usage_rows \<lparr>data = Some [ex_bucket2]\<rparr> 5 =
       [(''2023-11-16'', ''gpt-4'', ''100'', ''50'', ''150'', ''3''),
        ('''', ''(all '', ''0'', ''0'', ''0'', ''0'')]
   \<and> model_cell (usage_rows \<lparr>data = Some [ex_bucket2]\<rparr> 5 ! 1) = ''(all ''
   \<and> model_cell (usage_rows \<lparr>data = Some [ex_bucket2]\<rparr> 5 ! 1) \<noteq> ''(all models)''"
proof -
  have "usage_rows \<lparr>data = Some [ex_bucket2]\<rparr> 5 =
       [(''2023-11-16'', ''gpt-4'', ''100'', ''50'', ''150'', ''3''),
        ('''', ''(all '', ''0'', ''0'', ''0'', ''0'')]"
    by (simp add: ex_defs row_eval)
  then show ?thesis
    by (simp add: is_completions_result_def completions_result_tag_def ex_bare_def
        model_cell_def cells_def)
qed

text \<open>
  C8, as the code has it. Let \<open>full\<close> be the model name of a result of the expected type
  (the literal \<open>(all models)\<close> when the name is absent or empty). When the maximum display
  length is positive and \<open>full\<close> is longer, the Model cell is \<open>full\<close> cut to exactly that
  many characters; when \<open>full\<close> is not longer than the maximum it is shown in full; and
  when the maximum is zero or negative nothing is cut.
\<close>

theorem model_name_truncation:
  assumes "i < length (matching_results u)"
  shows "(0 < mml \<and> mml < int (length (str_or (model (matching_results u ! i)) ''(all models)''))
           \<longrightarrow> model_cell (usage_rows u mml ! i)
                 = take (nat mml) (str_or (model (matching_results u ! i)) ''(all models)'')
               \<and> int (length (model_cell (usage_rows u mml ! i))) = mml)
       \<and> (int (length (str_or (model (matching_results u ! i)) ''(all models)'')) \<le> mml
           \<longrightarrow> model_cell (usage_rows u mml ! i)
                 = str_or (model (matching_results u ! i)) ''(all models)'')
       \<and> (mml \<le> 0
           \<longrightarrow> model_cell (usage_rows u mml ! i)
                 = str_or (model (matching_results u ! i)) ''(all models)'')"
proof -
  obtain d where rw: "usage_rows u mml ! i = row_of mml d (matching_results u ! i)"
    using usage_rows_nth [OF assms] by blast
  show ?thesis
    by (auto simp: rw row_of_cells Let_def)
qed

theorem model_name_truncation_witness:
  "model_cell (usage_rows ex_usage 3 ! 0) = ''gpt''
   \<and> int (length (model_cell (usage_rows ex_usage 3 ! 0))) = 3
   \<and> model_cell (usage_rows ex_usage 5 ! 0) = ''gpt-4''
   \<and> model_cell (usage_rows ex_usage (- 2) ! 0) = ''gpt-4''"
proof -
  have m: "matching_results ex_usage = [ex_gpt4, ex_gpt4, ex_bare]"
    by (simp add: matching_results_def usage_buckets_def per_result_list_def
        is_completions_result_def completions_result_tag_def ex_defs)
  then have h: "0 < length (matching_results ex_usage)" by simp
  have f: "str_or (model (matching_results ex_usage ! 0)) ''(all models)'' = ''gpt-4''"
    by (simp add: m ex_gpt4_def str_or_def)
  from model_name_truncation [OF h, of 3] f
  have a: "model_cell (usage_rows ex_usage 3 ! 0) = ''gpt''
      \<and> int (length (model_cell (usage_rows ex_usage 3 ! 0))) = 3"
    by (simp add: eval_nat_numeral)
  from model_name_truncation [OF h, of 5] f
  have b: "model_cell (usage_rows ex_usage 5 ! 0) = ''gpt-4''"
    by simp
  from model_name_truncation [OF h, of "- 2"] f
  have c: "model_cell (usage_rows ex_usage (- 2) ! 0) = ''gpt-4''"
    by simp
  from a b c show ?thesis by blast
qed

theorem model_name_truncation_counterexample:
  "model ex_gpt4 = Some ''gpt-4'' \<and> int (length ''gpt-4'') > 0
   \<and> usage_rows \<lparr>data = Some [ex_bucket1]\<rparr> 0 =
       [(''2023-11-14'', ''gpt-4'', ''100'', ''50'', ''150'', ''3'')]
   \<and> model_cell (usage_rows \<lparr>data = Some [ex_bucket1]\<rparr> 0 ! 0) = ''gpt-4''
   \<and> model_cell (usage_rows \<lparr>data = Some [ex_bucket1]\<rparr> 0 ! 0) \<noteq> take (nat 0) ''gpt-4''
   \<and> length (model_cell (usage_rows \<lparr>data = Some [ex_bucket1]\<rparr> 0 ! 0)) \<noteq> nat 0"
proof -
  have "usage_rows \<lparr>data = Some [ex_bucket1]\<rparr> 0 =
       [(''2023-11-14'', ''gpt-4'', ''100'', ''50'', ''150'', ''3'')]"
    by (simp add: ex_defs row_eval)
  then show ?thesis
    by (simp add: ex_gpt4_def model_cell_def cells_def)
qed

section \<open>Properties of the fetch and of the entry point\<close>

lemma admin_get_no_key:
  "admin_key w = None \<or> admin_key w = Some [] \<Longrightarrow>
   admin_get path ps w = (Inl (ValueError missing_key_message), w)"
  by (auto simp: admin_get_def)

lemma admin_get_sends:
  assumes "admin_key w = Some k" and "k \<noteq> []"
  shows "sent (snd (admin_get path ps w)) =
     sent w @ [\<lparr>url = ''https://api.openai.com/v1/'' @ path, authorization = ''Bearer '' @ k,
                query = ps, timeout_seconds = 120\<rparr>]"
  using assms by (simp add: admin_get_def Let_def split: http_outcome.splits)






















text \<open>
  C3. When the credential variable is unset or empty, \<^verbatim>\<open>admin_get\<close> raises the
  configuration error and leaves the world as it was: in particular the list of requests
  issued is unchanged, so no HTTP call is made. (With a non-empty credential the call is
  made: exactly one request is appended to that list.)
\<close>

theorem admin_get_missing_key_no_request:
  "(admin_key w = None \<or> admin_key w = Some [] \<longrightarrow>
      admin_get path ps w = (Inl (ValueError missing_key_message), w)
      \<and> sent (snd (admin_get path ps w)) = sent w)
   \<and> (\<forall>k. admin_key w = Some k \<and> k \<noteq> [] \<longrightarrow>
        sent (snd (admin_get path ps w)) =
          sent w @ [\<lparr>url = ''https://api.openai.com/v1/'' @ path,
                     authorization = ''Bearer '' @ k, query = ps, timeout_seconds = 120\<rparr>])"
  using admin_get_no_key [of w path ps] admin_get_sends [of w _ path ps] by auto

theorem admin_get_missing_key_no_request_witness:
  "admin_key ex_world_no_key = None \<and> admin_key ex_world_empty_key = Some []
   \<and> fst (admin_get ''organization/usage/completions'' [] ex_world_no_key)
       = Inl (ValueError missing_key_message)
   \<and> sent (snd (admin_get ''organization/usage/completions'' [] ex_world_no_key)) = []
   \<and> fst (admin_get ''organization/usage/completions'' [] ex_world_empty_key)
       = Inl (ValueError missing_key_message)
   \<and> sent (snd (admin_get ''organization/usage/completions'' [] ex_world_empty_key)) = []
   \<and> sent (snd (admin_get ''organization/usage/completions'' [] ex_world)) =
       [\<lparr>url = ''https://api.openai.com/v1/organization/usage/completions'',
         authorization = ''Bearer sk-admin'', query = [], timeout_seconds = 120\<rparr>]"
proof -
  have k: "admin_key ex_world_no_key = None" "admin_key ex_world_empty_key = Some []"
    "admin_key ex_world = Some ''sk-admin''"
    by (simp_all add: ex_world_no_key_def ex_world_empty_key_def ex_world_def)
  have s: "sent ex_world_no_key = []" "sent ex_world_empty_key = []" "sent ex_world = []"
    by (simp_all add: ex_world_no_key_def ex_world_empty_key_def ex_world_def)
  from admin_get_missing_key_no_request [of ex_world_no_key "''organization/usage/completions''" "[]"] k s
  have a: "fst (admin_get ''organization/usage/completions'' [] ex_world_no_key)
       = Inl (ValueError missing_key_message)
     \<and> sent (snd (admin_get ''organization/usage/completions'' [] ex_world_no_key)) = []"
    by simp
  from admin_get_missing_key_no_request [of ex_world_empty_key "''organization/usage/completions''" "[]"] k s
  have b: "fst (admin_get ''organization/usage/completions'' [] ex_world_empty_key)
       = Inl (ValueError missing_key_message)
     \<and> sent (snd (admin_get ''organization/usage/completions'' [] ex_world_empty_key)) = []"
    by simp
  from admin_get_missing_key_no_request [of ex_world "''organization/usage/completions''" "[]"] k s
  have c: "sent (snd (admin_get ''organization/usage/completions'' [] ex_world)) =
       [\<lparr>url = ''https://api.openai.com/v1/organization/usage/completions'',
         authorization = ''Bearer sk-admin'', query = [], timeout_seconds = 120\<rparr>]"
    by simp
  from a b c k show ?thesis by simp
qed






section \<open>Properties of the calendar conversion\<close>

lemma ymd_tail_props:
  assumes "0 \<le> r" and "r < 365" and "ymd_tail y L r = (y', m, dd)"
  shows "y' = y \<and> 1 \<le> m \<and> m \<le> 12 \<and> 1 \<le> dd \<and> dd \<le> 31
       \<and> days_before_month_tab ! nat m + (if m > 2 \<and> L then 1 else 0) + dd = r + 1"
proof -
  define k where "k = (r + 50) div 32"
  have "32 * k \<le> r + 50" "r + 50 < 32 * k + 32"
    unfolding k_def by (simp_all add: algebra_simps)
  with assms(1,2) have "1 \<le> k" "k \<le> 12" by linarith+
  then have "k = 1 \<or> k = 2 \<or> k = 3 \<or> k = 4 \<or> k = 5 \<or> k = 6 \<or> k = 7 \<or> k = 8 \<or> k = 9
      \<or> k = 10 \<or> k = 11 \<or> k = 12"
    by presburger
  then show ?thesis
    using assms(3) \<open>32 * k \<le> r + 50\<close> \<open>r + 50 < 32 * k + 32\<close> assms(1,2)
    unfolding ymd_tail_def k_def [symmetric] Let_def
    by (elim disjE; simp add: days_before_month_tab_def days_in_month_tab_def split: if_splits; linarith?)
qed

lemma div_of_sum: "(k * q + r) div k = q" if "0 \<le> r" "r < k" for k q r :: int
  using that by (rule int_div_pos_eq [OF refl])

lemma mod_of_sum: "(k * q + r) mod k = r" if "0 \<le> r" "r < k" for k q r :: int
  using that by (rule int_mod_pos_eq [OF refl])

lemma year_quotients:
  fixes a b c d :: int
  assumes "0 \<le> b" "b \<le> 3" "0 \<le> c" "c \<le> 24" "0 \<le> d" "d \<le> 3"
  shows "(400 * a + 100 * b + 4 * c + d) div 4 = 100 * a + 25 * b + c"
    and "(400 * a + 100 * b + 4 * c + d) div 100 = 4 * a + b"
    and "(400 * a + 100 * b + 4 * c + d) div 400 = a"
    and "(400 * a + 100 * b + 4 * c + d) mod 4 = d"
    and "(400 * a + 100 * b + 4 * c + d) mod 100 = 4 * c + d"
    and "(400 * a + 100 * b + 4 * c + d) mod 400 = 100 * b + 4 * c + d"
proof -
  have e4: "400 * a + 100 * b + 4 * c + d = 4 * (100 * a + 25 * b + c) + d" by simp
  have e100: "400 * a + 100 * b + 4 * c + d = 100 * (4 * a + b) + (4 * c + d)" by simp
  have e400: "400 * a + 100 * b + 4 * c + d = 400 * a + (100 * b + 4 * c + d)" by simp
  show "(400 * a + 100 * b + 4 * c + d) div 4 = 100 * a + 25 * b + c"
    unfolding e4 using assms by (intro div_of_sum) simp_all
  show "(400 * a + 100 * b + 4 * c + d) div 100 = 4 * a + b"
    unfolding e100 using assms by (intro div_of_sum) simp_all
  show "(400 * a + 100 * b + 4 * c + d) div 400 = a"
    unfolding e400 using assms by (intro div_of_sum) simp_all
  show "(400 * a + 100 * b + 4 * c + d) mod 4 = d"
    unfolding e4 using assms by (intro mod_of_sum) simp_all
  show "(400 * a + 100 * b + 4 * c + d) mod 100 = 4 * c + d"
    unfolding e100 using assms by (intro mod_of_sum) simp_all
  show "(400 * a + 100 * b + 4 * c + d) mod 400 = 100 * b + 4 * c + d"
    unfolding e400 using assms by (intro mod_of_sum) simp_all
qed

lemma days_before_year_decomp:
  fixes a b c d :: int
  assumes "0 \<le> b" "b \<le> 3" "0 \<le> c" "c \<le> 24" "0 \<le> d" "d \<le> 3"
  shows "days_before_year (400 * a + 100 * b + 4 * c + d + 1)
         = 146097 * a + 36524 * b + 1461 * c + 365 * d"
  by (simp add: days_before_year_def year_quotients [OF assms])


lemma is_leap_decomp:
  fixes a b c d :: int
  assumes "0 \<le> b" "b \<le> 3" "0 \<le> c" "c \<le> 24" "0 \<le> d" "d \<le> 3"
  shows "is_leap (400 * a + 100 * b + 4 * c + d + 1) \<longleftrightarrow> d = 3 \<and> (c \<noteq> 24 \<or> b = 3)"
proof -
  have z: "(0::int) \<le> 0" "(0::int) \<le> 3" "(0::int) \<le> 24" by simp_all
  show ?thesis
  proof (cases "d = 3")
    case False
    with assms have d: "0 \<le> d + 1" "d + 1 \<le> 3" by simp_all
    have e: "400 * a + 100 * b + 4 * c + d + 1 = 400 * a + 100 * b + 4 * c + (d + 1)" by simp
    have "(400 * a + 100 * b + 4 * c + d + 1) mod 4 = d + 1"
      unfolding e by (rule year_quotients(4) [OF assms(1-4) d])
    with False assms show ?thesis by (simp add: is_leap_def)
  next
    case True
    show ?thesis
    proof (cases "c = 24")
      case False
      with assms have c: "0 \<le> c + 1" "c + 1 \<le> 24" by simp_all
      have e: "400 * a + 100 * b + 4 * c + d + 1 = 400 * a + 100 * b + 4 * (c + 1) + 0"
        using True by simp
      have m4: "(400 * a + 100 * b + 4 * c + d + 1) mod 4 = 0"
        unfolding e by (rule year_quotients(4) [OF assms(1,2) c z(1,2)])
      have m100: "(400 * a + 100 * b + 4 * c + d + 1) mod 100 = 4 * (c + 1) + 0"
        unfolding e by (rule year_quotients(5) [OF assms(1,2) c z(1,2)])
      from assms(3) have "4 * (c + 1) + 0 \<noteq> 0" by simp
      with m4 m100 True False show ?thesis by (simp only: is_leap_def) simp
    next
      case c24: True
      show ?thesis
      proof (cases "b = 3")
        case False
        with assms have b: "0 \<le> b + 1" "b + 1 \<le> 3" by simp_all
        have e: "400 * a + 100 * b + 4 * c + d + 1 = 400 * a + 100 * (b + 1) + 4 * 0 + 0"
          using True c24 by simp
        have m100: "(400 * a + 100 * b + 4 * c + d + 1) mod 100 = 4 * 0 + 0"
          unfolding e by (rule year_quotients(5) [OF b z(1,3) z(1,2)])
        have m400: "(400 * a + 100 * b + 4 * c + d + 1) mod 400 = 100 * (b + 1) + 4 * 0 + 0"
          unfolding e by (rule year_quotients(6) [OF b z(1,3) z(1,2)])
        from assms(1) have "100 * (b + 1) + 4 * 0 + 0 \<noteq> 0" by simp
        with m100 m400 True c24 False show ?thesis by (simp only: is_leap_def) simp
      next
        case b3: True
        have e: "400 * a + 100 * b + 4 * c + d + 1 = 400 * (a + 1)"
          using True c24 b3 by simp
        have "(400 * (a + 1)) mod 4 = 0" "(400 * (a + 1)) mod 400 = 0" by simp_all
        then show ?thesis
          unfolding e is_leap_def using True c24 b3 by simp
      qed
    qed
  qed
qed

lemma ord2ymd_unfold:
  "ord2ymd ordinal =
     (let n = ordinal - 1;
          n400 = n div 146097; n = n mod 146097;
          n100 = n div 36524; n = n mod 36524;
          n4 = n div 1461; n = n mod 1461;
          n1 = n div 365; n = n mod 365;
          y = n400 * 400 + 1 + n100 * 100 + n4 * 4 + n1
      in if n1 = 4 \<or> n100 = 4 then (y - 1, 12, 31)
         else ymd_tail y (n1 = 3 \<and> (n4 \<noteq> 24 \<or> n100 = 3)) n)"
  by (simp only: ord2ymd_def ymd_tail_def Let_def)

lemma days_before_month_leap:
  "days_before_month y m = days_before_month_tab ! nat m + (if m > 2 \<and> is_leap y then 1 else 0)"
  by (simp add: days_before_month_def)

lemma ord2ymd_correct:
  assumes "1 \<le> ordinal" and "ord2ymd ordinal = (y, m, dd)"
  shows "ymd2ord y m dd = ordinal \<and> 1 \<le> m \<and> m \<le> 12 \<and> 1 \<le> dd \<and> dd \<le> 31 \<and> 1 \<le> y
       \<and> (ordinal \<le> 3652059 \<longrightarrow> y \<le> 9999)"
proof -
  define n0 where "n0 = ordinal - 1"
  define a where "a = n0 div 146097"
  define r400 where "r400 = n0 mod 146097"
  define b where "b = r400 div 36524"
  define r100 where "r100 = r400 mod 36524"
  define c where "c = r100 div 1461"
  define r4 where "r4 = r100 mod 1461"
  define d where "d = r4 div 365"
  define r where "r = r4 mod 365"
  define L where "L \<longleftrightarrow> d = 3 \<and> (c \<noteq> 24 \<or> b = 3)"
  have n0: "0 \<le> n0" "ordinal = n0 + 1"
    using assms(1) by (simp_all add: n0_def)
  have e1: "n0 = 146097 * a + r400" "0 \<le> r400" "r400 < 146097"
    by (simp_all add: a_def r400_def)
  have e2: "r400 = 36524 * b + r100" "0 \<le> r100" "r100 < 36524"
    by (simp_all add: b_def r100_def)
  have e3: "r100 = 1461 * c + r4" "0 \<le> r4" "r4 < 1461"
    by (simp_all add: c_def r4_def)
  have e4: "r4 = 365 * d + r" "0 \<le> r" "r < 365"
    by (simp_all add: d_def r_def)
  have a0: "0 \<le> a" using n0(1) by (simp add: a_def pos_imp_zdiv_nonneg_iff)
  have b0: "0 \<le> b" using e1(2) by (simp add: b_def pos_imp_zdiv_nonneg_iff)
  have c0: "0 \<le> c" using e2(2) by (simp add: c_def pos_imp_zdiv_nonneg_iff)
  have d0: "0 \<le> d" using e3(2) by (simp add: d_def pos_imp_zdiv_nonneg_iff)
  have b4: "b \<le> 4" using e1 e2 by linarith
  have c24: "c \<le> 24" using e2 e3 by linarith
  have d4: "d \<le> 4" using e3 e4 by linarith
  have unfold: "ord2ymd ordinal =
      (if d = 4 \<or> b = 4 then (a * 400 + 1 + b * 100 + c * 4 + d - 1, 12, 31)
       else ymd_tail (a * 400 + 1 + b * 100 + c * 4 + d) (d = 3 \<and> (c \<noteq> 24 \<or> b = 3)) r)"
    unfolding ord2ymd_unfold Let_def a_def b_def c_def d_def r_def r4_def r100_def r400_def n0_def
    by (rule refl)
  have z: "(0::int) \<le> 3" "(3::int) \<le> 3" "(0::int) \<le> 24" "(24::int) \<le> 24" by simp_all
  show ?thesis
  proof (cases "b = 4")
    case True
    then have "r100 = 0" "c = 0" "r4 = 0" "d = 0" "r = 0"
      using e1 e2 e3 e4 c0 d0 by linarith+
    then have n: "n0 = 146097 * a + 146096"
      using e1 e2 True by simp
    have yv: "y = 400 * a + 100 * 3 + 4 * 24 + 3 + 1" and mv: "m = 12" and dv: "dd = 31"
      using assms(2) unfold True \<open>c = 0\<close> \<open>d = 0\<close> by simp_all
    have dby: "days_before_year y = 146097 * a + 36524 * 3 + 1461 * 24 + 365 * 3"
      unfolding yv by (rule days_before_year_decomp [OF z(1,2) z(3,4) z(1,2)])
    have leap: "is_leap y"
      unfolding yv using is_leap_decomp [OF z(1,2) z(3,4) z(1,2), of a] by simp
    have "ymd2ord y m dd = ordinal"
      by (simp add: ymd2ord_def dby days_before_month_leap leap mv dv n n0(2)
          days_before_month_tab_def)
    moreover have "1 \<le> y" using a0 yv by simp
    moreover have "y \<le> 9999" if "ordinal \<le> 3652059"
      using that n n0(2) yv by linarith
    ultimately show ?thesis using mv dv by simp
  next
    case False
    with b4 have b3: "b \<le> 3" by simp
    show ?thesis
    proof (cases "d = 4")
      case True
      then have r0: "r = 0" using e3 e4 by linarith
      have c23: "c \<le> 23" using e2 e3 e4 True by linarith
      have cc: "0 \<le> c" "c \<le> 24" using c0 c23 by simp_all
      have n: "n0 = 146097 * a + 36524 * b + 1461 * c + 1460"
        using e1 e2 e3 e4 True r0 by simp
      have yv: "y = 400 * a + 100 * b + 4 * c + 3 + 1" and mv: "m = 12" and dv: "dd = 31"
        using assms(2) unfold True by simp_all
      have dby: "days_before_year y = 146097 * a + 36524 * b + 1461 * c + 365 * 3"
        unfolding yv by (rule days_before_year_decomp [OF b0 b3 cc z(1,2)])
      have leap: "is_leap y"
        unfolding yv using is_leap_decomp [OF b0 b3 cc z(1,2), of a] c23 by simp
      have "ymd2ord y m dd = ordinal"
        by (simp add: ymd2ord_def dby days_before_month_leap leap mv dv n n0(2)
            days_before_month_tab_def)
      moreover have "1 \<le> y" using a0 b0 c0 yv by simp
      moreover have "y \<le> 9999" if "ordinal \<le> 3652059"
        using that n n0(2) yv b0 b3 c0 c23 by linarith
      ultimately show ?thesis using mv dv by simp
    next
      case d_ne: False
      with d4 have d3: "d \<le> 3" by simp
      have n: "n0 = 146097 * a + 36524 * b + 1461 * c + 365 * d + r"
        using e1 e2 e3 e4 by simp
      have tail: "ymd_tail (a * 400 + 1 + b * 100 + c * 4 + d) (d = 3 \<and> (c \<noteq> 24 \<or> b = 3)) r
                  = (y, m, dd)"
        using assms(2) unfold False d_ne by simp
      note p = ymd_tail_props [OF e4(2,3) tail]
      from p have yv: "y = 400 * a + 100 * b + 4 * c + d + 1" by simp
      have dby: "days_before_year y = 146097 * a + 36524 * b + 1461 * c + 365 * d"
        unfolding yv by (rule days_before_year_decomp [OF b0 b3 c0 c24 d0 d3])
      have leap: "is_leap y \<longleftrightarrow> d = 3 \<and> (c \<noteq> 24 \<or> b = 3)"
        unfolding yv by (rule is_leap_decomp [OF b0 b3 c0 c24 d0 d3])
      from p have sum: "days_before_month_tab ! nat m
            + (if m > 2 \<and> (d = 3 \<and> (c \<noteq> 24 \<or> b = 3)) then 1 else 0) + dd = r + 1"
        by blast
      have "days_before_month y m = days_before_month_tab ! nat m
            + (if m > 2 \<and> (d = 3 \<and> (c \<noteq> 24 \<or> b = 3)) then 1 else 0)"
        unfolding days_before_month_leap leap by (rule refl)
      with sum have "days_before_month y m + dd = r + 1"
        by linarith
      then have "ymd2ord y m dd = ordinal"
        by (simp add: ymd2ord_def dby n n0(2))
      moreover have "1 \<le> y" using a0 b0 c0 d0 yv by simp
      moreover have "y \<le> 9999" if "ordinal \<le> 3652059"
        using that n n0(2) yv b0 b3 c0 c24 d0 d3 e4(2) by linarith
      ultimately show ?thesis using p by simp
    qed
  qed
qed

lemma clock_parts:
  fixes secs :: int
  assumes "0 \<le> secs" and "secs < 86400"
  shows "0 \<le> secs div 3600 \<and> secs div 3600 \<le> 23
       \<and> 0 \<le> secs mod 3600 div 60 \<and> secs mod 3600 div 60 \<le> 59
       \<and> 0 \<le> secs mod 60 \<and> secs mod 60 \<le> 59
       \<and> secs div 3600 * 3600 + secs mod 3600 div 60 * 60 + secs mod 60 = secs"
proof -
  define h where "h = secs div 3600"
  define r where "r = secs mod 3600"
  define mi where "mi = r div 60"
  define se where "se = r mod 60"
  have e1: "secs = 3600 * h + r" "0 \<le> r" "r < 3600" by (simp_all add: h_def r_def)
  have e2: "r = 60 * mi + se" "0 \<le> se" "se < 60" by (simp_all add: mi_def se_def)
  have "secs mod 60 = secs mod 3600 mod 60"
    by (simp add: mod_mod_cancel)
  then have s: "secs mod 60 = se" by (simp add: se_def r_def)
  have "0 \<le> h" "h \<le> 23" "0 \<le> mi" "mi \<le> 59"
    using e1 e2 assms by linarith+
  moreover have "h * 3600 + mi * 60 + se = secs"
    using e1 e2 by linarith
  ultimately show ?thesis
    using e2 s by (simp add: h_def [symmetric] r_def [symmetric] mi_def [symmetric])
qed

lemma fromtimestamp_correct:
  assumes "datetime_min \<le> ts" and "ts \<le> datetime_max"
  shows "\<exists>dt. fromtimestamp ts = Inr dt \<and> timestamp dt = ts
       \<and> 1 \<le> year dt \<and> year dt \<le> 9999 \<and> 1 \<le> month dt \<and> month dt \<le> 12
       \<and> 1 \<le> day dt \<and> day dt \<le> 31 \<and> 0 \<le> hour dt \<and> hour dt \<le> 23
       \<and> 0 \<le> minute dt \<and> minute dt \<le> 59 \<and> 0 \<le> second dt \<and> second dt \<le> 59"
proof -
  define q where "q = ts div 86400"
  define secs where "secs = ts mod 86400"
  have e: "ts = 86400 * q + secs" "0 \<le> secs" "secs < 86400"
    by (simp_all add: q_def secs_def)
  have lo: "1 \<le> q + 719163" and hi: "q + 719163 \<le> 3652059"
    using assms e by (simp_all add: datetime_min_def datetime_max_def)
  obtain y m d where o: "ord2ymd (q + 719163) = (y, m, d)"
    by (cases "ord2ymd (q + 719163)") auto
  note c = ord2ymd_correct [OF lo o]
  note p = clock_parts [OF e(2,3)]
  define dt where "dt = \<lparr>year = y, month = m, day = d, hour = secs div 3600,
                minute = secs mod 3600 div 60, second = secs mod 60\<rparr>"
  have f: "fromtimestamp ts = Inr dt"
    using assms by (simp add: fromtimestamp_def q_def [symmetric] secs_def [symmetric] o dt_def)
  have "timestamp dt = (ymd2ord y m d - 719163) * 86400
      + (secs div 3600 * 3600 + secs mod 3600 div 60 * 60 + secs mod 60)"
    by (simp add: timestamp_def dt_def)
  also have "\<dots> = q * 86400 + secs"
    using c p by simp
  finally have t: "timestamp dt = ts"
    using e(1) by simp
  from f t c p hi show ?thesis
    by (intro exI [of _ dt]) (simp add: dt_def)
qed

lemma is_digit_digit_char: "d < 10 \<Longrightarrow> is_digit (digit_char d)"
proof -
  assume "d < 10"
  then have "d \<in> {0, 1, 2, 3, 4, 5, 6, 7, 8, 9}" by auto
  then show ?thesis
    by (auto simp: is_digit_def digit_char_def)
qed

lemma digits_all_digit: "list_all is_digit (digits n)"
proof (induction n rule: digits.induct)
  case (1 n)
  show ?case
  proof (cases "n < 10")
    case True
    then show ?thesis
      by (subst digits.simps) (simp add: is_digit_digit_char)
  next
    case False
    with 1 show ?thesis
      by (subst digits.simps) (simp add: is_digit_digit_char)
  qed
qed

lemma length_digits_le: "n < 10 ^ k \<Longrightarrow> 1 \<le> k \<Longrightarrow> length (digits n) \<le> k"
proof (induction n arbitrary: k rule: digits.induct)
  case (1 n)
  show ?case
  proof (cases "n < 10")
    case True
    then show ?thesis
      using "1.prems"(2) by (subst digits.simps) simp
  next
    case False
    obtain j where k: "k = Suc j"
      using "1.prems"(2) by (cases k) auto
    have "j \<noteq> 0"
      using False "1.prems"(1) k by (cases j) auto
    then have j1: "1 \<le> j" by simp
    have "n div 10 < 10 ^ j"
      using "1.prems"(1) k by (simp add: less_mult_imp_div_less mult.commute)
    from "1.IH" [OF False this j1] show ?thesis
      using False k by (subst digits.simps) simp
  qed
qed

lemma nat_of_digits_zeros: "nat_of_digits (replicate k CHR ''0'' @ s) = nat_of_digits s"
proof (induction k)
  case 0
  then show ?case by simp
next
  case (Suc k)
  have "nat_of_digits (CHR ''0'' # xs) = nat_of_digits xs" for xs
    by (simp add: nat_of_digits_def digit_val_def)
  with Suc show ?case by simp
qed

lemma zero_pad_props:
  assumes "0 \<le> n" and "n < 10 ^ w" and "1 \<le> w"
  shows "length (zero_pad w n) = w" and "list_all is_digit (zero_pad w n)"
    and "int (nat_of_digits (zero_pad w n)) = n" and "CHR ''+'' \<notin> set (zero_pad w n)"
proof -
  have s: "str_int n = digits (nat n)"
    using assms(1) by (simp add: str_int_def)
  have "nat n < 10 ^ w"
    using assms(1,2) by (simp add: nat_less_iff)
  then have le: "length (digits (nat n)) \<le> w"
    using assms(3) by (rule length_digits_le)
  show "length (zero_pad w n) = w"
    using le by (simp add: zero_pad_def s Let_def)
  have z: "is_digit CHR ''0''" by (simp add: is_digit_def)
  show d: "list_all is_digit (zero_pad w n)"
    using digits_all_digit [of "nat n"] z
    by (auto simp: zero_pad_def s Let_def list_all_iff)
  show "int (nat_of_digits (zero_pad w n)) = n"
    using assms(1) by (simp add: zero_pad_def s Let_def nat_of_digits_zeros nat_of_digits_digits)
  have "\<not> is_digit CHR ''+''" by (simp add: is_digit_def)
  with d show "CHR ''+'' \<notin> set (zero_pad w n)"
    by (auto simp: list_all_iff)
qed

lemma py_replace_suffix:
  assumes "CHR ''+'' \<notin> set body"
  shows "py_replace ''+00:00'' ''Z'' (body @ ''+00:00'') = body @ ''Z''"
  using assms
proof (induction body)
  case Nil
  show ?case by (simp add: py_replace.simps)
next
  case (Cons c body)
  then have "c \<noteq> CHR ''+''" by auto
  then have "py_replace ''+00:00'' ''Z'' ((c # body) @ ''+00:00'')
      = c # py_replace ''+00:00'' ''Z'' (body @ ''+00:00'')"
    by (subst py_replace.simps) simp
  with Cons show ?case by simp
qed

end
